theory Spec2Isabelle
  imports Main
begin

section \<open>JavaScript strings\<close>

text \<open>
  The server of \<^verbatim>\<open>src/index.ts\<close> works on JavaScript strings. They are modelled as
  \<^typ>\<open>string\<close>, one \<^typ>\<open>char\<close> per code unit, for the code units below 256.
  \<^verbatim>\<open>toUpperCase\<close> and \<^verbatim>\<open>toLowerCase\<close> act on the letters a-z and A-Z and leave every other
  character alone: the server applies them to HTTP methods, which are keys of an OpenAPI
  document, and to the method that a registered identifier begins with, both ASCII text.
  \<^verbatim>\<open>trim\<close>, which the server applies to an identifier that a caller sends, strips the
  white space and the line terminators of JavaScript: among the code units below 256 these
  are 9 to 13, the space 32 and the no-break space 160.
\<close>

definition charCode :: "char \<Rightarrow> nat" where
  "charCode c = of_char c"

definition isLowerAZ :: "char \<Rightarrow> bool" where
  "isLowerAZ c = (97 \<le> charCode c \<and> charCode c \<le> 122)"

definition isUpperAZ :: "char \<Rightarrow> bool" where
  "isUpperAZ c = (65 \<le> charCode c \<and> charCode c \<le> 90)"

definition isDigit09 :: "char \<Rightarrow> bool" where
  "isDigit09 c = (48 \<le> charCode c \<and> charCode c \<le> 57)"

definition toUpperCase_char :: "char \<Rightarrow> char" where
  "toUpperCase_char c = (if isLowerAZ c then char_of (charCode c - 32) else c)"

definition toLowerCase_char :: "char \<Rightarrow> char" where
  "toLowerCase_char c = (if isUpperAZ c then char_of (charCode c + 32) else c)"

definition toUpperCase :: "string \<Rightarrow> string" where
  "toUpperCase s = map toUpperCase_char s"

definition toLowerCase :: "string \<Rightarrow> string" where
  "toLowerCase s = map toLowerCase_char s"

text \<open>The character class \<^verbatim>\<open>[a-zA-Z0-9-]\<close> of the tool identifier.\<close>

definition id_char :: "char \<Rightarrow> bool" where
  "id_char c = (isLowerAZ c \<or> isUpperAZ c \<or> isDigit09 c \<or> c = CHR ''-'')"

text \<open>The character class \<^verbatim>\<open>[a-zA-Z0-9_-]\<close> of the tool name.\<close>

definition name_char :: "char \<Rightarrow> bool" where
  "name_char c = (isLowerAZ c \<or> isUpperAZ c \<or> isDigit09 c \<or> c = CHR ''_'' \<or> c = CHR ''-'')"

text \<open>\<^verbatim>\<open>s.replace(/[^...]/g, r)\<close>: every character outside the class becomes \<open>r\<close>.\<close>

definition replace_outside :: "(char \<Rightarrow> bool) \<Rightarrow> char \<Rightarrow> string \<Rightarrow> string" where
  "replace_outside ok r s = map (\<lambda>c. if ok c then c else r) s"

text \<open>\<^verbatim>\<open>s.replace(/-/g, "/")\<close> and its like: every occurrence of one character becomes another.\<close>

definition replace_char :: "char \<Rightarrow> char \<Rightarrow> string \<Rightarrow> string" where
  "replace_char a b s = map (\<lambda>c. if c = a then b else c) s"

text \<open>\<^verbatim>\<open>path.replace(/^\//, "")\<close>: one leading slash is removed, if there is one.\<close>

definition strip_leading_slash :: "string \<Rightarrow> string" where
  "strip_leading_slash p = (case p of [] \<Rightarrow> [] | c # cs \<Rightarrow> if c = CHR ''/'' then cs else p)"

text \<open>
  \<^verbatim>\<open>s.split(sep)\<close> for a separator of one character: the pieces between the separators, in
  order; the empty string gives one empty piece.
\<close>

fun str_split :: "char \<Rightarrow> string \<Rightarrow> string list" where
  "str_split sep [] = [[]]"
| "str_split sep (c # cs) =
     (if c = sep then [] # str_split sep cs
      else (case str_split sep cs of [] \<Rightarrow> [[c]] | p # ps \<Rightarrow> (c # p) # ps))"

text \<open>\<^verbatim>\<open>parts.join(sep)\<close> on an array of strings.\<close>

fun str_join :: "string \<Rightarrow> string list \<Rightarrow> string" where
  "str_join sep [] = []"
| "str_join sep [p] = p"
| "str_join sep (p # q # ps) = p @ sep @ str_join sep (q # ps)"

text \<open>
  \<^verbatim>\<open>s.replace(/_{2,}/g, "_")\<close>: every maximal run of two or more underscores becomes one
  underscore, that is, an underscore followed by an underscore is dropped.
\<close>

fun collapse_underscores :: "string \<Rightarrow> string" where
  "collapse_underscores (a # b # cs) =
     (if a = CHR ''_'' \<and> b = CHR ''_'' then collapse_underscores (b # cs)
      else a # collapse_underscores (b # cs))"
| "collapse_underscores cs = cs"

definition endsWith :: "string \<Rightarrow> char \<Rightarrow> bool" where
  "endsWith s c = (s \<noteq> [] \<and> last s = c)"

definition startsWith :: "string \<Rightarrow> char \<Rightarrow> bool" where
  "startsWith s c = (s \<noteq> [] \<and> hd s = c)"

definition isWhiteSpace :: "char \<Rightarrow> bool" where
  "isWhiteSpace c = ((9 \<le> charCode c \<and> charCode c \<le> 13) \<or> charCode c = 32 \<or> charCode c = 160)"

definition trim :: "string \<Rightarrow> string" where
  "trim s = rev (dropWhile isWhiteSpace (rev (dropWhile isWhiteSpace s)))"

text \<open>\<^verbatim>\<open>a || b\<close> on a string that may be absent: \<open>a\<close> when it is there and not empty.\<close>

definition or_else :: "string option \<Rightarrow> string \<Rightarrow> string" where
  "or_else a b = (case a of None \<Rightarrow> b | Some s \<Rightarrow> if s = [] then b else s)"


section \<open>The data model\<close>

datatype error =
    ToolNotFound string
  | TypeError
  | ApiRequestFailed string
  | OtherError

text \<open>
  An OpenAPI parameter. \<open>p_name\<close> and \<open>p_in\<close> are \<open>None\<close> when the entry has no such key
  (a reference object has neither); \<open>p_schema\<close> is \<open>None\<close> when the entry has no schema.
\<close>

record schemaObject =
  schema_type :: "string option"

record parameterObject =
  p_name :: "string option"
  p_in :: "string option"
  p_description :: "string option"
  p_required :: bool
  p_schema :: "schemaObject option"

record operationObject =
  op_summary :: "string option"
  op_description :: "string option"
  op_parameters :: "parameterObject list option"

text \<open>
  A path item and the \<open>paths\<close> of a document, as \<^verbatim>\<open>Object.entries\<close> lists them: the keys in
  order, each with its value, \<open>None\<close> for a value that is not truthy.
\<close>

type_synonym pathItem = "(string \<times> operationObject option) list"

type_synonym paths = "(string \<times> pathItem option) list"

record property =
  prop_type :: string
  prop_description :: string

record toolInputSchema =
  is_type :: string
  is_properties :: "(string \<times> property) list"
  is_required :: "string list option"

record tool =
  tool_name :: string
  tool_description :: string
  inputSchema :: toolInputSchema

text \<open>
  The registry \<^verbatim>\<open>tools: Map<string, Tool>\<close>. A JavaScript \<^verbatim>\<open>Map\<close> iterates in insertion
  order, and \<^verbatim>\<open>set\<close> on a key that is there replaces the value where it stands.
\<close>

type_synonym registry = "(string \<times> tool) list"

fun entries_set :: "'k \<Rightarrow> 'v \<Rightarrow> ('k \<times> 'v) list \<Rightarrow> ('k \<times> 'v) list" where
  "entries_set k v [] = [(k, v)]"
| "entries_set k v ((k', v') # rest) =
     (if k' = k then (k, v) # rest else (k', v') # entries_set k v rest)"

definition tools_get :: "registry \<Rightarrow> string \<Rightarrow> tool option" where
  "tools_get tools k = map_of tools k"


section \<open>The spec compiler: \<^verbatim>\<open>parseOpenAPISpec\<close>\<close>

definition derive_toolId :: "string \<Rightarrow> string \<Rightarrow> string" where
  "derive_toolId method path =
     (let cleanPath = strip_leading_slash path
      in replace_outside id_char (CHR ''-'') (toUpperCase method @ ''-'' @ cleanPath))"

definition derive_toolName :: "string option \<Rightarrow> string \<Rightarrow> string \<Rightarrow> string" where
  "derive_toolName summary method path =
     (let cleanPath = strip_leading_slash path;
          toolName = or_else summary [];
          toolName = (if toolName = []
                      then toUpperCase method @ ''_'' @ str_join ''_'' (str_split (CHR ''/'') cleanPath)
                      else toolName);
          toolName = collapse_underscores (replace_outside name_char (CHR ''_'') toolName)
      in if length toolName > 64 then take 64 toolName else toolName)"

text \<open>
  The body of the loop over \<^verbatim>\<open>op.parameters\<close>. An entry takes part when it has both keys
  \<^verbatim>\<open>name\<close> and \<^verbatim>\<open>in\<close>; reading \<^verbatim>\<open>paramSchema.type\<close> of an entry without schema throws.
\<close>

definition add_parameter :: "parameterObject \<Rightarrow> toolInputSchema \<Rightarrow> error + toolInputSchema" where
  "add_parameter param s =
     (case (p_name param, p_in param) of
        (Some n, Some l) \<Rightarrow>
          (case p_schema param of
             None \<Rightarrow> Inl TypeError
           | Some paramSchema \<Rightarrow>
               Inr (s\<lparr> is_properties :=
                         entries_set n
                           \<lparr> prop_type = or_else (schema_type paramSchema) ''string'',
                             prop_description = or_else (p_description param) (n @ '' parameter'') \<rparr>
                           (is_properties s),
                       is_required :=
                         (if p_required param
                          then Some ((case is_required s of None \<Rightarrow> [] | Some r \<Rightarrow> r) @ [n])
                          else is_required s) \<rparr>))
      | _ \<Rightarrow> Inr s)"

fun add_parameters :: "parameterObject list \<Rightarrow> toolInputSchema \<Rightarrow> error + toolInputSchema" where
  "add_parameters [] s = Inr s"
| "add_parameters (param # params) s =
     (case add_parameter param s of
        Inl e \<Rightarrow> Inl e
      | Inr s' \<Rightarrow> add_parameters params s')"

definition empty_inputSchema :: toolInputSchema where
  "empty_inputSchema = \<lparr> is_type = ''object'', is_properties = [], is_required = None \<rparr>"

definition build_inputSchema :: "parameterObject list option \<Rightarrow> error + toolInputSchema" where
  "build_inputSchema ps =
     (case ps of
        None \<Rightarrow> Inr empty_inputSchema
      | Some params \<Rightarrow> add_parameters params empty_inputSchema)"

definition make_tool :: "string \<Rightarrow> string \<Rightarrow> operationObject \<Rightarrow> error + tool" where
  "make_tool path method op =
     (case build_inputSchema (op_parameters op) of
        Inl e \<Rightarrow> Inl e
      | Inr s \<Rightarrow>
          Inr \<lparr> tool_name = derive_toolName (op_summary op) method path,
                tool_description =
                  or_else (op_description op)
                    (''Make a '' @ toUpperCase method @ '' request to '' @ path),
                inputSchema = s \<rparr>)"

text \<open>The inner loop, over the entries of one path item.\<close>

fun register_operations :: "string \<Rightarrow> pathItem \<Rightarrow> registry \<Rightarrow> error + registry" where
  "register_operations path [] tools = Inr tools"
| "register_operations path ((method, operation) # rest) tools =
     (case operation of
        None \<Rightarrow> register_operations path rest tools
      | Some op \<Rightarrow>
          if method = ''parameters'' then register_operations path rest tools
          else (case make_tool path method op of
                  Inl e \<Rightarrow> Inl e
                | Inr t \<Rightarrow> register_operations path rest (entries_set (derive_toolId method path) t tools)))"

text \<open>The outer loop, over the entries of \<^verbatim>\<open>spec.paths\<close>.\<close>

fun register_paths :: "paths \<Rightarrow> registry \<Rightarrow> error + registry" where
  "register_paths [] tools = Inr tools"
| "register_paths ((path, pathItem) # rest) tools =
     (case pathItem of
        None \<Rightarrow> register_paths rest tools
      | Some item \<Rightarrow>
          (case register_operations path item tools of
             Inl e \<Rightarrow> Inl e
           | Inr tools' \<Rightarrow> register_paths rest tools'))"

definition parseOpenAPISpec :: "paths \<Rightarrow> error + registry" where
  "parseOpenAPISpec spec_paths = register_paths spec_paths []"


section \<open>JavaScript values\<close>

text \<open>
  The values a request carries. A number is represented by the text that \<^verbatim>\<open>String\<close> gives
  for it (\<^verbatim>\<open>"0"\<close> for both zeros, \<^verbatim>\<open>"NaN"\<close>), which is all the handler observes of a number.
  An object is the list of its own properties in \<^verbatim>\<open>Object.entries\<close> order; property names are
  ordinary names (not \<^verbatim>\<open>__proto__\<close>).
\<close>

datatype jsvalue =
    JUndefined
  | JNull
  | JBool bool
  | JNum string
  | JStr string
  | JArr "jsvalue list"
  | JObj "(string \<times> jsvalue) list"

fun truthy :: "jsvalue \<Rightarrow> bool" where
  "truthy JUndefined = False"
| "truthy JNull = False"
| "truthy (JBool b) = b"
| "truthy (JNum r) = (r \<noteq> ''0'' \<and> r \<noteq> ''NaN'')"
| "truthy (JStr s) = (s \<noteq> [])"
| "truthy (JArr xs) = True"
| "truthy (JObj kvs) = True"

text \<open>
  \<^verbatim>\<open>String(v)\<close>. An array is joined with commas, an element that is \<^verbatim>\<open>undefined\<close> or \<^verbatim>\<open>null\<close>
  giving the empty string. A plain object gives \<^verbatim>\<open>"[object Object]"\<close>, unless it has a property
  \<^verbatim>\<open>toString\<close> of its own, which is then no function, and the conversion throws a TypeError.
\<close>

fun js_String :: "jsvalue \<Rightarrow> error + string"
  and js_elements :: "jsvalue list \<Rightarrow> error + string list" where
  "js_String JUndefined = Inr ''undefined''"
| "js_String JNull = Inr ''null''"
| "js_String (JBool b) = Inr (if b then ''true'' else ''false'')"
| "js_String (JNum r) = Inr r"
| "js_String (JStr s) = Inr s"
| "js_String (JArr xs) =
     (case js_elements xs of Inl e \<Rightarrow> Inl e | Inr ps \<Rightarrow> Inr (str_join '','' ps))"
| "js_String (JObj kvs) =
     (if ''toString'' \<in> set (map fst kvs) then Inl TypeError else Inr ''[object Object]'')"
| "js_elements [] = Inr []"
| "js_elements (x # xs) =
     (case (if x = JUndefined \<or> x = JNull then Inr [] else js_String x) of
        Inl e \<Rightarrow> Inl e
      | Inr p \<Rightarrow> (case js_elements xs of Inl e \<Rightarrow> Inl e | Inr ps \<Rightarrow> Inr (p # ps)))"

text \<open>\<^verbatim>\<open>value.join(",")\<close> on an array.\<close>

definition array_join :: "jsvalue list \<Rightarrow> error + string" where
  "array_join xs = (case js_elements xs of Inl e \<Rightarrow> Inl e | Inr ps \<Rightarrow> Inr (str_join '','' ps))"


section \<open>The invocation dispatcher: the \<^verbatim>\<open>CallToolRequestSchema\<close> handler\<close>

record serverConfig =
  apiBaseUrl :: string
  headers :: "(string \<times> string) list"

record server =
  config :: serverConfig
  tools :: registry

text \<open>
  \<^verbatim>\<open>request.params\<close>: \<open>req_id\<close> is \<open>JUndefined\<close> when the request has no \<^verbatim>\<open>id\<close>; the protocol's
  schema makes \<^verbatim>\<open>name\<close> a string and \<^verbatim>\<open>arguments\<close> an object or absent.
\<close>

record callToolParams =
  req_id :: jsvalue
  req_name :: string
  req_arguments :: "(string \<times> jsvalue) list option"

text \<open>The configuration handed to \<^verbatim>\<open>axios\<close>; \<open>None\<close> for a key that is not set.\<close>

record requestConfig =
  rc_method :: string
  rc_url :: string
  rc_headers :: "(string \<times> string) list"
  rc_params :: "(string \<times> string) list option"
  rc_data :: "(string \<times> jsvalue) list option"

text \<open>What the handler writes with \<^verbatim>\<open>console.error\<close>, the diagnostic channel.\<close>

datatype diag =
    DiagReceivedRequest callToolParams
  | DiagUsingParameters "(string \<times> jsvalue) list option"
  | DiagAvailableTools string
  | DiagExecutingTool string
  | DiagProcessedParameters
  | DiagFinalRequestConfig requestConfig
  | DiagResponse
  | DiagRequestFailed

text \<open>
  What the call of \<^verbatim>\<open>axios\<close> comes to. A response is represented by the text
  \<^verbatim>\<open>JSON.stringify(response.data, null, 2)\<close>, an error of axios by its message and the text
  \<^verbatim>\<open>JSON.stringify(error.response?.data)\<close>; anything else thrown is \<open>AxiosThrows\<close>.
\<close>

datatype axios_outcome =
    AxiosResponse string
  | AxiosError string string
  | AxiosThrows

record textContent =
  content_type :: string
  content_text :: string

record outcome =
  out_result :: "error + textContent list"
  out_diag :: "diag list"
  out_calls :: "requestConfig list"

text \<open>The scan of the registry for a name: the first entry whose tool has it.\<close>

fun find_by_name :: "string \<Rightarrow> registry \<Rightarrow> tool option \<times> string option" where
  "find_by_name name [] = (None, None)"
| "find_by_name name ((tid, t) # rest) =
     (if tool_name t = name then (Some t, Some tid) else find_by_name name rest)"

text \<open>
  \<^verbatim>\<open>typeof id === 'string' ? id.trim() : String(id)\<close>, the key under which a supplied
  identifier is looked up.
\<close>

definition lookup_key :: "jsvalue \<Rightarrow> error + string" where
  "lookup_key ident = (case ident of JStr s \<Rightarrow> Inr (trim s) | _ \<Rightarrow> js_String ident)"

definition resolve_tool :: "registry \<Rightarrow> jsvalue \<Rightarrow> string \<Rightarrow> error + (tool option \<times> string option)" where
  "resolve_tool tls ident name =
     (if truthy ident then
        (case lookup_key ident of
           Inl e \<Rightarrow> Inl e
         | Inr toolId \<Rightarrow> Inr (tools_get tls toolId, Some toolId))
      else if name \<noteq> [] then Inr (find_by_name name tls)
      else Inr (None, None))"

text \<open>The line \<^verbatim>\<open>Available tools: ...\<close> and the message of the error thrown after it.\<close>

definition available_tools :: "registry \<Rightarrow> string" where
  "available_tools tls =
     ''Available tools: '' @ str_join '', '' (map (\<lambda>(tid, t). tid @ '' ('' @ tool_name t @ '')'') tls)"

definition not_found_message :: "jsvalue \<Rightarrow> string \<Rightarrow> error + string" where
  "not_found_message ident name =
     (case (if truthy ident then js_String ident else Inr name) of
        Inl e \<Rightarrow> Inl e
      | Inr s \<Rightarrow> Inr (''Tool not found: '' @ s))"

text \<open>
  \<^verbatim>\<open>const [method, ...pathParts] = toolId.split("-")\<close> and the path made of the parts.
  \<^verbatim>\<open>split\<close> never gives an empty array.
\<close>

definition reconstruct :: "string \<Rightarrow> string \<times> string" where
  "reconstruct toolId =
     (case str_split (CHR ''-'') toolId of
        [] \<Rightarrow> ([], ''/'')
      | method # pathParts \<Rightarrow>
          (method, ''/'' @ replace_char (CHR ''-'') (CHR ''/'') (str_join ''/'' pathParts)))"

definition ensure_trailing_slash :: "string \<Rightarrow> string" where
  "ensure_trailing_slash b = (if endsWith b (CHR ''/'') then b else b @ ''/'')"

definition remove_leading_slash :: "string \<Rightarrow> string" where
  "remove_leading_slash path = (if startsWith path (CHR ''/'') then drop 1 path else path)"

text \<open>The loop over \<^verbatim>\<open>Object.entries(params)\<close> that fills \<^verbatim>\<open>queryParams\<close>.\<close>

fun query_params :: "(string \<times> jsvalue) list \<Rightarrow> (string \<times> string) list \<Rightarrow> error + (string \<times> string) list" where
  "query_params [] q = Inr q"
| "query_params ((key, v) # rest) q =
     (case v of
        JArr xs \<Rightarrow>
          (case array_join xs of
             Inl e \<Rightarrow> Inl e
           | Inr s \<Rightarrow> query_params rest (entries_set key s q))
      | JUndefined \<Rightarrow> query_params rest q
      | JNull \<Rightarrow> query_params rest q
      | _ \<Rightarrow>
          (case js_String v of
             Inl e \<Rightarrow> Inl e
           | Inr s \<Rightarrow> query_params rest (entries_set key s q)))"

text \<open>
  The request configuration of a resolved tool. \<open>new_URL rel base\<close> stands for
  \<^verbatim>\<open>new URL(rel, base).toString()\<close> of the runtime, \<open>None\<close> when it throws.
\<close>

definition build_request ::
  "(string \<Rightarrow> string \<Rightarrow> string option) \<Rightarrow> serverConfig \<Rightarrow> string \<Rightarrow>
     (string \<times> jsvalue) list option \<Rightarrow> error + requestConfig" where
  "build_request new_URL cfg toolId params =
     (let (method, path) = reconstruct toolId;
          baseUrl = ensure_trailing_slash (apiBaseUrl cfg);
          cleanPath = remove_leading_slash path
      in case new_URL cleanPath baseUrl of
           None \<Rightarrow> Inl TypeError
         | Some url \<Rightarrow>
             (let rc = \<lparr> rc_method = toLowerCase method, rc_url = url, rc_headers = headers cfg,
                         rc_params = None, rc_data = None \<rparr>
              in if toLowerCase method = ''get'' then
                   (case params of
                      None \<Rightarrow> Inr rc
                    | Some kvs \<Rightarrow>
                        (case query_params kvs [] of
                           Inl e \<Rightarrow> Inl e
                         | Inr queryParams \<Rightarrow> Inr (rc\<lparr> rc_params := Some queryParams \<rparr>)))
                 else Inr (rc\<lparr> rc_data := params \<rparr>)))"

definition tool_not_found :: "server \<Rightarrow> callToolParams \<Rightarrow> diag list \<Rightarrow> outcome \<times> server" where
  "tool_not_found srv req d =
     (\<lparr> out_result =
          (case not_found_message (req_id req) (req_name req) of
             Inl e \<Rightarrow> Inl e
           | Inr msg \<Rightarrow> Inl (ToolNotFound msg)),
        out_diag = d @ [DiagAvailableTools (available_tools (tools srv))],
        out_calls = [] \<rparr>, srv)"

definition execute_tool ::
  "(string \<Rightarrow> string \<Rightarrow> string option) \<Rightarrow> (requestConfig \<Rightarrow> axios_outcome) \<Rightarrow>
     server \<Rightarrow> callToolParams \<Rightarrow> diag list \<Rightarrow> tool \<Rightarrow> string \<Rightarrow> outcome \<times> server" where
  "execute_tool new_URL axios srv req d t toolId =
     (let d1 = d @ [DiagExecutingTool (''Executing tool: '' @ toolId @ '' ('' @ tool_name t @ '')'')]
      in case build_request new_URL (config srv) toolId (req_arguments req) of
           Inl e \<Rightarrow> (\<lparr> out_result = Inl e, out_diag = d1, out_calls = [] \<rparr>, srv)
         | Inr rc \<Rightarrow>
             (let d2 = d1 @ [DiagProcessedParameters, DiagFinalRequestConfig rc]
              in case axios rc of
                   AxiosResponse text \<Rightarrow>
                     (\<lparr> out_result = Inr [\<lparr> content_type = ''text'', content_text = text \<rparr>],
                        out_diag = d2 @ [DiagResponse], out_calls = [rc] \<rparr>, srv)
                 | AxiosError message data \<Rightarrow>
                     (\<lparr> out_result =
                          Inl (ApiRequestFailed (''API request failed: '' @ message @ '' - '' @ data)),
                        out_diag = d2 @ [DiagRequestFailed], out_calls = [rc] \<rparr>, srv)
                 | AxiosThrows \<Rightarrow>
                     (\<lparr> out_result = Inl OtherError, out_diag = d2, out_calls = [rc] \<rparr>, srv)))"

text \<open>
  The handler: it resolves the tool, and either reports that there is none or executes it.
  It returns what the caller gets, what went to the diagnostic channel, the calls of
  \<^verbatim>\<open>axios\<close> it issued, and the server after the request.
\<close>

definition callTool ::
  "(string \<Rightarrow> string \<Rightarrow> string option) \<Rightarrow> (requestConfig \<Rightarrow> axios_outcome) \<Rightarrow>
     server \<Rightarrow> callToolParams \<Rightarrow> outcome \<times> server" where
  "callTool new_URL axios srv req =
     (let d = [DiagReceivedRequest req, DiagUsingParameters (req_arguments req)]
      in case resolve_tool (tools srv) (req_id req) (req_name req) of
           Inl e \<Rightarrow> (\<lparr> out_result = Inl e, out_diag = d, out_calls = [] \<rparr>, srv)
         | Inr (found, toolId) \<Rightarrow>
             (case (found, toolId) of
                (Some t, Some tid) \<Rightarrow>
                  if tid = [] then tool_not_found srv req d
                  else execute_tool new_URL axios srv req d t tid
              | _ \<Rightarrow> tool_not_found srv req d))"


section \<open>Notions of the specification\<close>

text \<open>
  The tool identifier in the words of the specification: the upper-case method, a hyphen,
  the path without its leading slash, and in that text every character outside
  \<^verbatim>\<open>[A-Za-z0-9-]\<close> replaced by a hyphen.
\<close>

definition Tool_Identifier :: "string \<Rightarrow> string \<Rightarrow> string" where
  "Tool_Identifier method path =
     map (\<lambda>c. if c \<in> set ''ABCDEFGHIJKLMNOPQRSTUVWXYZabcdefghijklmnopqrstuvwxyz0123456789-'' then c else CHR ''-'')
       (toUpperCase method @ ''-'' @ (if path \<noteq> [] \<and> hd path = CHR ''/'' then tl path else path))"

text \<open>
  The (path, method) pairs the compiler takes from a document: the path item is there, the
  operation is there and its key is not \<^verbatim>\<open>parameters\<close>.
\<close>

definition compiled_methods :: "pathItem \<Rightarrow> string list" where
  "compiled_methods item =
     map fst (filter (\<lambda>(method, operation). operation \<noteq> None \<and> method \<noteq> ''parameters'') item)"

definition compiled_pairs :: "paths \<Rightarrow> (string \<times> string) list" where
  "compiled_pairs spec_paths =
     concat (map (\<lambda>(path, pathItem).
                    case pathItem of None \<Rightarrow> [] | Some item \<Rightarrow> map (Pair path) (compiled_methods item))
               spec_paths)"

text \<open>A text has a run of underscores when two of them stand side by side.\<close>

fun has_underscore_run :: "string \<Rightarrow> bool" where
  "has_underscore_run (a # b # cs) = ((a = CHR ''_'' \<and> b = CHR ''_'') \<or> has_underscore_run (b # cs))"
| "has_underscore_run cs = False"

text \<open>
  The property of the input contract that a parameter with a name and a schema stands for:
  the type of the schema, \<^verbatim>\<open>"string"\<close> when there is none, and the description of the
  parameter, \<^verbatim>\<open>"{name} parameter"\<close> when there is none.
\<close>

definition default_property :: "parameterObject \<Rightarrow> string \<Rightarrow> schemaObject \<Rightarrow> property" where
  "default_property param n paramSchema =
     \<lparr> prop_type = (case schema_type paramSchema of
                       None \<Rightarrow> ''string''
                     | Some t \<Rightarrow> if t = [] then ''string'' else t),
       prop_description = (case p_description param of
                             None \<Rightarrow> n @ '' parameter''
                           | Some d \<Rightarrow> if d = [] then n @ '' parameter'' else d) \<rparr>"

definition has_name_and_in :: "parameterObject \<Rightarrow> bool" where
  "has_name_and_in param = (p_name param \<noteq> None \<and> p_in param \<noteq> None)"



text \<open>
  A request resolves to no tool: the key of its identifier has no entry in the registry,
  or it has no identifier and no registered tool has its name.
\<close>

definition unresolved :: "server \<Rightarrow> callToolParams \<Rightarrow> bool" where
  "unresolved srv req =
     (if truthy (req_id req)
      then (case lookup_key (req_id req) of Inl e \<Rightarrow> False | Inr k \<Rightarrow> tools_get (tools srv) k = None)
      else list_all (\<lambda>(tid, t). tool_name t \<noteq> req_name req) (tools srv))"

text \<open>What the loop over the arguments makes of one value: nothing, or the text of a query parameter.\<close>

definition query_value :: "jsvalue \<Rightarrow> (error + string) option" where
  "query_value v =
     (case v of
        JArr xs \<Rightarrow> Some (array_join xs)
      | JUndefined \<Rightarrow> None
      | JNull \<Rightarrow> None
      | _ \<Rightarrow> Some (js_String v))"

text \<open>
  The relative reference the handler resolves against the base URL: what follows the first
  hyphen of the identifier, with every hyphen turned into a slash.
\<close>

definition rel_path :: "string \<Rightarrow> string" where
  "rel_path toolId =
     replace_char (CHR ''-'') (CHR ''/'') (drop 1 (dropWhile (\<lambda>c. c \<noteq> CHR ''-'') toolId))"

definition exactly_one_trailing_slash :: "string \<Rightarrow> bool" where
  "exactly_one_trailing_slash s = (endsWith s (CHR ''/'') \<and> \<not> endsWith (butlast s) (CHR ''/''))"

text \<open>A text that is not empty and neither begins nor ends with white space.\<close>

definition plain_text :: "string \<Rightarrow> bool" where
  "plain_text s = (s \<noteq> [] \<and> \<not> isWhiteSpace (hd s) \<and> \<not> isWhiteSpace (last s))"

text \<open>The part of an identifier that the handler makes the path of: what follows its first hyphen.\<close>

definition path_part :: "string \<Rightarrow> string" where
  "path_part toolId = drop 1 (dropWhile (\<lambda>c. c \<noteq> CHR ''-'') toolId)"

definition plain_path_part :: "string \<Rightarrow> bool" where
  "plain_path_part toolId =
     (\<not> startsWith (path_part toolId) (CHR ''-'') \<and> \<not> startsWith (path_part toolId) (CHR ''/''))"

definition ends_with_several_slashes :: "string \<Rightarrow> bool" where
  "ends_with_several_slashes s = (endsWith s (CHR ''/'') \<and> endsWith (butlast s) (CHR ''/''))"


section \<open>A server to run the handler on\<close>

text \<open>
  A registry of one tool, as the compiler makes it of the operation \<^verbatim>\<open>get\<close> of the path
  \<^verbatim>\<open>/v1/voices\<close> with the summary \<^verbatim>\<open>Get voices\<close>; a resolver of URLs that appends the
  relative reference to the base; and an HTTP client that answers every request with an
  empty object.
\<close>

definition sample_tool :: tool where
  "sample_tool = \<lparr> tool_name = ''Get_voices'', tool_description = ''Make a GET request to /v1/voices'',
                     inputSchema = \<lparr> is_type = ''object'', is_properties = [], is_required = None \<rparr> \<rparr>"

definition sample_server :: server where
  "sample_server = \<lparr> config = \<lparr> apiBaseUrl = ''https://api.elevenlabs.io'',
                                   headers = [(''Content-Type'', ''application/json'')] \<rparr>,
                       tools = [(''GET-v1-voices'', sample_tool)] \<rparr>"

definition concat_URL :: "string \<Rightarrow> string \<Rightarrow> string option" where
  "concat_URL rel base = Some (base @ rel)"

definition sample_axios :: "requestConfig \<Rightarrow> axios_outcome" where
  "sample_axios rc = AxiosResponse ''{}''"

text \<open>
  A registry of three tools, as the compiler makes it of a document in which the operations
  \<^verbatim>\<open>get\<close> and \<^verbatim>\<open>post\<close> of the path \<^verbatim>\<open>/v1/models\<close> have the same summary \<^verbatim>\<open>List models\<close>:
  two tools have one name.
\<close>

definition models_tool :: "string \<Rightarrow> tool" where
  "models_tool m = \<lparr> tool_name = ''List_models'',
                      tool_description = ''Make a '' @ m @ '' request to /v1/models'',
                      inputSchema = \<lparr> is_type = ''object'', is_properties = [], is_required = None \<rparr> \<rparr>"

definition sample_registry :: registry where
  "sample_registry = [(''GET-v1-voices'', sample_tool),
                      (''GET-v1-models'', models_tool ''GET''),
                      (''POST-v1-models'', models_tool ''POST'')]"


section \<open>Lemmas on strings\<close>

lemma id_char_alphabet:
  "\<forall>c. id_char c = (c \<in> set ''ABCDEFGHIJKLMNOPQRSTUVWXYZabcdefghijklmnopqrstuvwxyz0123456789-'')"
  by code_simp

lemma str_split_nonempty: "str_split sep s \<noteq> []"
  by (induction s) (auto split: list.splits)

lemma str_join_push: "str_join sep ((c # p) # ps) = c # str_join sep (p # ps)"
  by (cases ps) simp_all

lemma str_join_split: "str_join [r] (str_split sep s) = replace_char sep r s"
proof (induction s)
  case Nil
  show ?case by (simp add: replace_char_def)
next
  case (Cons c cs)
  obtain p ps where sp: "str_split sep cs = p # ps"
    using str_split_nonempty by (cases "str_split sep cs") auto
  show ?case
    using Cons by (simp add: sp replace_char_def str_join_push)
qed

lemma str_split_prefix:
  "sep \<notin> set m \<Longrightarrow> str_split sep (m @ sep # rest) = m # str_split sep rest"
  by (induction m) auto

lemma str_split_whole: "sep \<notin> set s \<Longrightarrow> str_split sep s = [s]"
  by (induction s) auto

lemma replace_char_idem: "a \<noteq> b \<Longrightarrow> replace_char a b (replace_char a b s) = replace_char a b s"
  by (simp add: replace_char_def)

lemma reconstruct_eq:
  assumes "CHR ''-'' \<notin> set m"
  shows "reconstruct (m @ CHR ''-'' # rest) = (m, ''/'' @ replace_char (CHR ''-'') (CHR ''/'') rest)"
proof -
  have "str_join ''/'' (str_split (CHR ''-'') rest) = replace_char (CHR ''-'') (CHR ''/'') rest"
    by (rule str_join_split)
  then show ?thesis
    using assms by (simp add: reconstruct_def str_split_prefix replace_char_idem)
qed

lemma toUpperCase_char_not_lower: "\<not> isLowerAZ (toUpperCase_char c)"
  by (auto simp add: toUpperCase_char_def isLowerAZ_def charCode_def)

lemma toUpperCase_fix: "\<forall>c \<in> set s. \<not> isLowerAZ c \<Longrightarrow> toUpperCase s = s"
  by (induction s) (simp_all add: toUpperCase_def toUpperCase_char_def)

lemma replace_outside_fix: "\<forall>c \<in> set s. ok c \<Longrightarrow> replace_outside ok r s = s"
  by (induction s) (simp_all add: replace_outside_def)

lemma replace_outside_append:
  "replace_outside ok r (xs @ ys) = replace_outside ok r xs @ replace_outside ok r ys"
  by (simp add: replace_outside_def)

lemma replace_outside_ok: "ok r \<Longrightarrow> c \<in> set (replace_outside ok r s) \<Longrightarrow> ok c"
  by (auto simp add: replace_outside_def)

lemma id_char_hyphen: "id_char (CHR ''-'')"
  by (simp add: id_char_def)

lemma not_id_char_slash: "\<not> id_char (CHR ''/'')"
  by (simp add: id_char_def isLowerAZ_def isUpperAZ_def isDigit09_def charCode_def)

lemma sanitize_slashed:
  "\<forall>c \<in> set s. id_char c \<Longrightarrow>
     replace_outside id_char (CHR ''-'') (replace_char (CHR ''-'') (CHR ''/'') s) = s"
  by (induction s) (simp_all add: replace_outside_def replace_char_def not_id_char_slash)

lemma strip_leading_slash_Cons: "strip_leading_slash (CHR ''/'' # s) = s"
  by (simp add: strip_leading_slash_def)

lemma split_at_hyphen:
  assumes "CHR ''-'' \<in> set s"
  obtains rest where "s = takeWhile (\<lambda>c. c \<noteq> CHR ''-'') s @ CHR ''-'' # rest"
proof -
  let ?d = "dropWhile (\<lambda>c. c \<noteq> CHR ''-'') s"
  from assms have "?d \<noteq> []" by auto
  then obtain x rest where d: "?d = x # rest" by (cases ?d) auto
  have "x = CHR ''-''"
    using hd_dropWhile [of "\<lambda>c. c \<noteq> CHR ''-''" s] \<open>?d \<noteq> []\<close> d by simp
  with d have "s = takeWhile (\<lambda>c. c \<noteq> CHR ''-'') s @ CHR ''-'' # rest"
    using takeWhile_dropWhile_id [of "\<lambda>c. c \<noteq> CHR ''-''" s] by simp
  then show ?thesis by (rule that)
qed

lemma takeWhile_stop:
  "takeWhile (\<lambda>c. c \<noteq> x) (u @ x # ys) = takeWhile (\<lambda>c. c \<noteq> x) u"
  by (induction u) simp_all

lemma name_char_underscore: "name_char (CHR ''_'')"
  by (simp add: name_char_def)

lemma replace_outside_name_chars: "list_all name_char (replace_outside name_char (CHR ''_'') s)"
  by (induction s) (simp_all add: replace_outside_def name_char_underscore)

lemma collapse_underscores_chars: "list_all P s \<Longrightarrow> list_all P (collapse_underscores s)"
  by (induction s rule: collapse_underscores.induct) auto

lemma collapse_underscores_Cons: "\<exists>ys. collapse_underscores (b # cs) = b # ys"
  by (induction cs arbitrary: b) auto

lemma collapse_underscores_no_run: "\<not> has_underscore_run (collapse_underscores s)"
proof (induction s rule: collapse_underscores.induct)
  case (1 a b cs)
  obtain ys where ys: "collapse_underscores (b # cs) = b # ys"
    using collapse_underscores_Cons by blast
  show ?case
  proof (cases "a = CHR ''_'' \<and> b = CHR ''_''")
    case True
    with 1 show ?thesis by simp
  next
    case False
    with 1 have "\<not> has_underscore_run (b # ys)" by (simp add: ys)
    with False show ?thesis by (auto simp add: ys)
  qed
qed simp_all

lemma take_no_run: "\<not> has_underscore_run s \<Longrightarrow> \<not> has_underscore_run (take n s)"
proof (induction s arbitrary: n rule: has_underscore_run.induct)
  case (1 a b cs)
  show ?case
  proof (cases n)
    case 0
    then show ?thesis by simp
  next
    case (Suc m)
    show ?thesis
    proof (cases m)
      case 0
      with Suc show ?thesis by simp
    next
      case (Suc k)
      with 1 \<open>n = Suc m\<close> show ?thesis
        using "1.IH" [of m] by auto
    qed
  qed
qed (simp, case_tac n, simp_all)

lemma take_chars: "list_all P s \<Longrightarrow> list_all P (take n s)"
  by (simp add: list_all_iff) (meson in_set_takeD)

lemma trim_whitespace_left: "list_all isWhiteSpace a \<Longrightarrow> dropWhile isWhiteSpace (a @ s) = dropWhile isWhiteSpace s"
  by (induction a) simp_all

lemma trim_surrounded:
  assumes "list_all isWhiteSpace a" and "list_all isWhiteSpace b"
  shows "trim (a @ s @ b) = trim s"
proof -
  have b: "list_all isWhiteSpace (rev b)" using assms(2) by (simp add: list_all_iff)
  have "rev (dropWhile isWhiteSpace s @ b) = rev b @ rev (dropWhile isWhiteSpace s)" by simp
  have "dropWhile isWhiteSpace (a @ s @ b) = dropWhile isWhiteSpace (s @ b)"
    using assms(1) by (rule trim_whitespace_left)
  show ?thesis
  proof (cases "list_all isWhiteSpace s")
    case True
    then have "list_all isWhiteSpace (a @ s @ b)" using assms by simp
    then have e1: "dropWhile isWhiteSpace (a @ s @ b) = []" by (simp add: list_all_iff)
    from True have e2: "dropWhile isWhiteSpace s = []" by (simp add: list_all_iff)
    show ?thesis unfolding trim_def by (simp only: e1 e2)
  next
    case False
    then obtain x where "x \<in> set s" and "\<not> isWhiteSpace x"
      by (auto simp add: list_all_iff)
    then have "dropWhile isWhiteSpace (s @ b) = dropWhile isWhiteSpace s @ b"
      by (rule dropWhile_append1)
    with \<open>dropWhile isWhiteSpace (a @ s @ b) = dropWhile isWhiteSpace (s @ b)\<close>
    have "trim (a @ s @ b) = rev (dropWhile isWhiteSpace (rev b @ rev (dropWhile isWhiteSpace s)))"
      by (simp add: trim_def)
    also have "\<dots> = rev (dropWhile isWhiteSpace (rev (dropWhile isWhiteSpace s)))"
      using b by (simp add: trim_whitespace_left)
    finally show ?thesis by (simp add: trim_def)
  qed
qed

lemma trim_plain:
  assumes "plain_text s"
  shows "trim s = s"
proof -
  from assms have s: "s \<noteq> []" and h: "\<not> isWhiteSpace (hd s)" and l: "\<not> isWhiteSpace (last s)"
    by (simp_all add: plain_text_def)
  from s h have front: "dropWhile isWhiteSpace s = s"
    by (cases s) simp_all
  from s l have "dropWhile isWhiteSpace (rev s) = rev s"
    by (cases "rev s") (simp_all add: hd_rev [symmetric])
  with front show ?thesis by (simp add: trim_def)
qed

lemma trim_core:
  assumes "list_all isWhiteSpace a" and "list_all isWhiteSpace b" and "plain_text s"
  shows "trim (a @ s @ b) = s"
  using trim_surrounded [OF assms(1,2), of s] trim_plain [OF assms(3)] by simp

lemma trim_blank:
  assumes "list_all isWhiteSpace s"
  shows "trim s = []"
proof -
  from assms have e: "dropWhile isWhiteSpace s = []" by (simp add: list_all_iff)
  show ?thesis unfolding trim_def e by simp
qed







section \<open>Lemmas on entries\<close>

lemma entries_set_keys: "fst ` set (entries_set k v xs) = insert k (fst ` set xs)"
  by (induction k v xs rule: entries_set.induct) auto

lemma entries_set_subset: "set (entries_set k v xs) \<subseteq> insert (k, v) (set xs)"
  by (induction k v xs rule: entries_set.induct) auto

lemma entries_set_map_of: "map_of (entries_set k v xs) = (map_of xs)(k \<mapsto> v)"
  by (induction k v xs rule: entries_set.induct) auto


section \<open>The tool identifier\<close>

lemma derive_toolId_spec: "derive_toolId m p = Tool_Identifier m p"
proof -
  have "strip_leading_slash p = (if p \<noteq> [] \<and> hd p = CHR ''/'' then tl p else p)"
    by (cases p) (simp_all add: strip_leading_slash_def)
  then show ?thesis
    using id_char_alphabet
    by (simp add: derive_toolId_def Tool_Identifier_def replace_outside_def Let_def)
qed

lemma register_operations_keys:
  "register_operations path item tls = Inr tls' \<Longrightarrow>
     fst ` set tls' = fst ` set tls \<union> (\<lambda>m. derive_toolId m path) ` set (compiled_methods item)"
proof (induction item arbitrary: tls)
  case Nil
  then show ?case by (simp add: compiled_methods_def)
next
  case (Cons entry item)
  obtain m operation where entry: "entry = (m, operation)" by (cases entry)
  show ?case
  proof (cases "operation = None \<or> m = ''parameters''")
    case True
    with Cons.prems entry have "register_operations path item tls = Inr tls'"
      by (auto split: option.splits)
    from Cons.IH [OF this] True entry show ?thesis
      by (auto simp add: compiled_methods_def)
  next
    case False
    then obtain op where op: "operation = Some op" and m: "m \<noteq> ''parameters''" by auto
    from Cons.prems entry op m obtain t where
      "register_operations path item (entries_set (derive_toolId m path) t tls) = Inr tls'"
      by (auto split: sum.splits)
    from Cons.IH [OF this] entry op m show ?thesis
      by (auto simp add: compiled_methods_def entries_set_keys)
  qed
qed

lemma compiled_pairs_Cons:
  "compiled_pairs ((p, pathItem) # ps)
   = (case pathItem of None \<Rightarrow> [] | Some item \<Rightarrow> map (Pair p) (compiled_methods item))
     @ compiled_pairs ps"
  by (simp add: compiled_pairs_def)

lemma register_paths_keys:
  "register_paths ps tls = Inr tls' \<Longrightarrow>
     fst ` set tls' = fst ` set tls \<union> (\<lambda>(p, m). derive_toolId m p) ` set (compiled_pairs ps)"
proof (induction ps arbitrary: tls)
  case Nil
  then show ?case by (simp add: compiled_pairs_def)
next
  case (Cons entry ps)
  obtain p pathItem where entry: "entry = (p, pathItem)" by (cases entry)
  show ?case
  proof (cases pathItem)
    case None
    with Cons.prems entry have "register_paths ps tls = Inr tls'" by simp
    from Cons.IH [OF this] None entry show ?thesis
      by (simp add: compiled_pairs_Cons)
  next
    case (Some item)
    with Cons.prems entry obtain mid where
      ops: "register_operations p item tls = Inr mid" and rest: "register_paths ps mid = Inr tls'"
      by (auto split: sum.splits)
    have "(\<lambda>(p, m). derive_toolId m p) ` set (compiled_pairs (entry # ps))
          = (\<lambda>m. derive_toolId m p) ` set (compiled_methods item)
            \<union> (\<lambda>(p, m). derive_toolId m p) ` set (compiled_pairs ps)"
      using entry Some by (simp add: compiled_pairs_Cons image_Un image_image)
    with Cons.IH [OF rest] register_operations_keys [OF ops] show ?thesis
      by auto
  qed
qed

text \<open>
  Claim C1. The identifiers of the registry that the compiler makes of a document are the
  identifiers, in the words of the specification, of the (path, method) pairs compiled from
  the document: each is the upper-case method, a hyphen and the path without its leading
  slash, with every character outside \<^verbatim>\<open>[A-Za-z0-9-]\<close> replaced by a hyphen.
\<close>

theorem registry_identifiers:
  assumes "parseOpenAPISpec spec_paths = Inr registry"
  shows "set (map fst registry)
         = set (map (\<lambda>(path, m). Tool_Identifier m path) (compiled_pairs spec_paths))"
  using register_paths_keys [of spec_paths "[]" registry] assms
  by (simp add: parseOpenAPISpec_def derive_toolId_spec)

theorem registry_identifiers_witness:
  "parseOpenAPISpec
     [(''/v1/voices'',
       Some [(''parameters'', Some \<lparr> op_summary = None, op_description = None, op_parameters = None \<rparr>),
             (''get'', Some \<lparr> op_summary = Some ''Get voices'', op_description = None,
                               op_parameters = None \<rparr>)])]
     = Inr [(''GET-v1-voices'', sample_tool)]
   \<and> set (map fst [(''GET-v1-voices'', sample_tool)])
       = set (map (\<lambda>(path, m). Tool_Identifier m path)
           (compiled_pairs
              [(''/v1/voices'',
                Some [(''parameters'', Some \<lparr> op_summary = None, op_description = None, op_parameters = None \<rparr>),
                      (''get'', Some \<lparr> op_summary = Some ''Get voices'', op_description = None,
                                        op_parameters = None \<rparr>)])]))"
proof -
  have h: "parseOpenAPISpec
     [(''/v1/voices'',
       Some [(''parameters'', Some \<lparr> op_summary = None, op_description = None, op_parameters = None \<rparr>),
             (''get'', Some \<lparr> op_summary = Some ''Get voices'', op_description = None,
                               op_parameters = None \<rparr>)])]
     = Inr [(''GET-v1-voices'', sample_tool)]"
    by code_simp
  from h registry_identifiers [OF h] show ?thesis by (rule conjI)
qed


section \<open>The tool identifier and its reconstruction\<close>

text \<open>
  An identifier made of the characters of the class, with a hyphen in it and no lower-case
  letter before its first hyphen, is what the compiler derives from the method and path
  that the dispatcher reconstructs from it.
\<close>

lemma rederive_fixpoint:
  assumes chars: "\<forall>c \<in> set s. id_char c"
    and hyphen: "CHR ''-'' \<in> set s"
    and upper: "\<forall>c \<in> set (takeWhile (\<lambda>c. c \<noteq> CHR ''-'') s). \<not> isLowerAZ c"
  shows "derive_toolId (fst (reconstruct s)) (snd (reconstruct s)) = s"
proof -
  define m where "m = takeWhile (\<lambda>c. c \<noteq> CHR ''-'') s"
  obtain rest where s: "s = m @ CHR ''-'' # rest"
    using split_at_hyphen [OF hyphen] unfolding m_def by blast
  have m_hyphen: "CHR ''-'' \<notin> set m"
    unfolding m_def by (auto dest: set_takeWhileD)
  have rest_chars: "\<forall>c \<in> set rest. id_char c"
    using chars by (subst (asm) s) simp
  have m_chars: "\<forall>c \<in> set m. id_char c"
    using chars by (subst (asm) s) simp
  have m_upper: "\<forall>c \<in> set m. \<not> isLowerAZ c"
    using upper by (simp add: m_def)
  have rec: "reconstruct s = (m, ''/'' @ replace_char (CHR ''-'') (CHR ''/'') rest)"
    by (subst s) (rule reconstruct_eq [OF m_hyphen])
  have "derive_toolId (fst (reconstruct s)) (snd (reconstruct s))
        = replace_outside id_char (CHR ''-'') (toUpperCase m) @ ''-''
          @ replace_outside id_char (CHR ''-'') (replace_char (CHR ''-'') (CHR ''/'') rest)"
    by (simp add: rec derive_toolId_def strip_leading_slash_Cons replace_outside_append)
       (simp add: replace_outside_def id_char_hyphen)
  also have "\<dots> = m @ ''-'' @ rest"
    using m_upper m_chars rest_chars
    by (simp add: toUpperCase_fix replace_outside_fix sanitize_slashed)
  also have "\<dots> = s" using s by simp
  finally show ?thesis .
qed

lemma derive_toolId_chars: "\<forall>c \<in> set (derive_toolId method path). id_char c"
  using replace_outside_ok [of id_char "CHR ''-''"]
  by (auto simp add: derive_toolId_def Let_def id_char_hyphen)

lemma derive_toolId_hyphen: "CHR ''-'' \<in> set (derive_toolId method path)"
  by (simp add: derive_toolId_def Let_def replace_outside_def id_char_hyphen)

lemma sanitized_upper_not_lower:
  "c \<in> set (replace_outside id_char (CHR ''-'') (toUpperCase m)) \<Longrightarrow> \<not> isLowerAZ c"
proof (induction m)
  case Nil
  then show ?case by (simp add: replace_outside_def toUpperCase_def)
next
  case (Cons a m)
  have "\<not> isLowerAZ (CHR ''-'')"
    by (simp add: isLowerAZ_def charCode_def)
  with Cons toUpperCase_char_not_lower [of a] show ?case
    by (auto simp add: replace_outside_def toUpperCase_def split: if_splits)
qed

lemma derive_toolId_method_upper:
  "\<forall>c \<in> set (takeWhile (\<lambda>c. c \<noteq> CHR ''-'') (derive_toolId method path)). \<not> isLowerAZ c"
proof -
  let ?u = "replace_outside id_char (CHR ''-'') (toUpperCase method)"
  have id: "derive_toolId method path
            = ?u @ CHR ''-'' # replace_outside id_char (CHR ''-'') (strip_leading_slash path)"
    by (simp add: derive_toolId_def Let_def replace_outside_append)
       (simp add: replace_outside_def id_char_hyphen)
  have "takeWhile (\<lambda>c. c \<noteq> CHR ''-'') (derive_toolId method path)
        = takeWhile (\<lambda>c. c \<noteq> CHR ''-'') ?u"
    by (simp only: id takeWhile_stop)
  then show ?thesis
    using sanitized_upper_not_lower by (auto dest: set_takeWhileD)
qed

text \<open>
  Claim C4. For a tool identifier derived from a path with no hyphen in it, reconstructing
  method and path from the identifier (the text before the first hyphen is the method, the
  other hyphens become slashes) and deriving the identifier of the reconstructed method and
  path gives the identifier back. The proof does not use the condition on the path: every
  derived identifier is such a fixed point.
\<close>

theorem toolId_roundtrip:
  assumes "CHR ''-'' \<notin> set path"
  shows "derive_toolId (fst (reconstruct (derive_toolId m path)))
           (snd (reconstruct (derive_toolId m path)))
         = derive_toolId m path"
  by (rule rederive_fixpoint [OF derive_toolId_chars derive_toolId_hyphen derive_toolId_method_upper])

theorem toolId_roundtrip_witness:
  "CHR ''-'' \<notin> set ''/v1/voices''
   \<and> derive_toolId (fst (reconstruct (derive_toolId ''get'' ''/v1/voices'')))
        (snd (reconstruct (derive_toolId ''get'' ''/v1/voices'')))
      = derive_toolId ''get'' ''/v1/voices''"
proof -
  have h: "CHR ''-'' \<notin> set ''/v1/voices''" by simp
  show ?thesis
    using h toolId_roundtrip [OF h, of "''get''"] by simp
qed


section \<open>The tool name\<close>

text \<open>
  Claim C5. Whatever the summary, the method and the path, the tool name has at most 64
  characters, all of them in \<^verbatim>\<open>[A-Za-z0-9_-]\<close>, and no two underscores side by side.
\<close>

theorem toolName_valid:
  "length (derive_toolName summary m path) \<le> 64
   \<and> list_all name_char (derive_toolName summary m path)
   \<and> \<not> has_underscore_run (derive_toolName summary m path)"
  by (simp add: derive_toolName_def Let_def replace_outside_name_chars
        collapse_underscores_chars collapse_underscores_no_run take_no_run take_chars)


section \<open>The input contract\<close>

lemma add_parameter_skip: "\<not> has_name_and_in param \<Longrightarrow> add_parameter param s = Inr s"
  by (auto simp add: add_parameter_def has_name_and_in_def split: option.splits)

lemma add_parameter_step:
  assumes "add_parameter param s0 = Inr s" and "has_name_and_in param"
  shows "\<exists>n paramSchema. p_name param = Some n \<and> p_schema param = Some paramSchema
           \<and> is_properties s = entries_set n (default_property param n paramSchema) (is_properties s0)"
proof -
  from assms(2) obtain n l where n: "p_name param = Some n" and l: "p_in param = Some l"
    by (auto simp add: has_name_and_in_def)
  with assms(1) obtain paramSchema where sch: "p_schema param = Some paramSchema"
    by (cases "p_schema param") (simp_all add: add_parameter_def)
  have "default_property param n paramSchema
        = \<lparr> prop_type = or_else (schema_type paramSchema) ''string'',
            prop_description = or_else (p_description param) (n @ '' parameter'') \<rparr>"
    by (simp add: default_property_def or_else_def)
  with assms(1) n l sch
  have "is_properties s = entries_set n (default_property param n paramSchema) (is_properties s0)"
    by (auto simp add: add_parameter_def)
  with n sch show ?thesis by blast
qed

lemma add_parameters_filter:
  "add_parameters params s0 = add_parameters (filter has_name_and_in params) s0"
  by (induction params arbitrary: s0) (auto simp add: add_parameter_skip split: sum.splits)

lemma add_parameters_keys:
  "add_parameters params s0 = Inr s \<Longrightarrow>
     fst ` set (is_properties s)
     = fst ` set (is_properties s0) \<union> {n. \<exists>p \<in> set params. has_name_and_in p \<and> p_name p = Some n}"
proof (induction params arbitrary: s0)
  case Nil
  then show ?case by simp
next
  case (Cons param params)
  from Cons.prems obtain s1 where
    step: "add_parameter param s0 = Inr s1" and rest: "add_parameters params s1 = Inr s"
    by (auto split: sum.splits)
  show ?case
  proof (cases "has_name_and_in param")
    case False
    with step have "s1 = s0" by (simp add: add_parameter_skip)
    with Cons.IH [OF rest] False show ?thesis by auto
  next
    case True
    from add_parameter_step [OF step True] obtain n paramSchema where
      n: "p_name param = Some n"
      and props: "is_properties s1 = entries_set n (default_property param n paramSchema) (is_properties s0)"
      by blast
    from Cons.IH [OF rest] True n show ?thesis
      by (auto simp add: props entries_set_keys)
  qed
qed

lemma add_parameters_values:
  "add_parameters params s0 = Inr s \<Longrightarrow> (n, pr) \<in> set (is_properties s) \<Longrightarrow>
     (n, pr) \<in> set (is_properties s0)
     \<or> (\<exists>p \<in> set params. \<exists>paramSchema. has_name_and_in p \<and> p_name p = Some n
           \<and> p_schema p = Some paramSchema \<and> pr = default_property p n paramSchema)"
proof (induction params arbitrary: s0)
  case Nil
  then show ?case by simp
next
  case (Cons param params)
  from Cons.prems obtain s1 where
    step: "add_parameter param s0 = Inr s1" and rest: "add_parameters params s1 = Inr s"
    by (auto split: sum.splits)
  from Cons.IH [OF rest Cons.prems(2)] consider
    (old) "(n, pr) \<in> set (is_properties s1)"
    | (new) "\<exists>p \<in> set params. \<exists>paramSchema. has_name_and_in p \<and> p_name p = Some n
           \<and> p_schema p = Some paramSchema \<and> pr = default_property p n paramSchema"
    by blast
  then show ?case
  proof cases
    case new
    then show ?thesis by auto
  next
    case old
    show ?thesis
    proof (cases "has_name_and_in param")
      case False
      with step have "s1 = s0" by (simp add: add_parameter_skip)
      with old show ?thesis by simp
    next
      case True
      from add_parameter_step [OF step True] obtain k paramSchema where
        k: "p_name param = Some k" and sch: "p_schema param = Some paramSchema"
        and props: "is_properties s1 = entries_set k (default_property param k paramSchema) (is_properties s0)"
        by blast
      from old props entries_set_subset [of k "default_property param k paramSchema" "is_properties s0"]
      have "(n, pr) = (k, default_property param k paramSchema) \<or> (n, pr) \<in> set (is_properties s0)"
        by auto
      with True k sch show ?thesis by auto
    qed
  qed
qed

text \<open>
  Claim C6 says that the compiler skips only the parameter entries that have neither a
  \<^verbatim>\<open>name\<close> nor an \<^verbatim>\<open>in\<close> field, and that an entry with one of the two contributes a
  property. The guard of the loop asks for both: an entry with a name and no \<^verbatim>\<open>in\<close> field
  contributes nothing.
\<close>

theorem name_only_parameter_skipped:
  "build_inputSchema
     (Some [\<lparr> p_name = Some ''voice_id'', p_in = None, p_description = None,
               p_required = True, p_schema = Some \<lparr> schema_type = Some ''string'' \<rparr> \<rparr>])
   = Inr \<lparr> is_type = ''object'', is_properties = [], is_required = None \<rparr>"
  by (simp add: build_inputSchema_def add_parameter_def empty_inputSchema_def)

text \<open>
  Claim C6, amended. The compiler skips the parameter entries that lack a \<^verbatim>\<open>name\<close> field or
  an \<^verbatim>\<open>in\<close> field: the contract is the one of the entries that have both. When the
  contract is built, its properties are named by the entries that have both fields, and
  each property is the one of such an entry: its type is the type of the schema,
  \<^verbatim>\<open>"string"\<close> when that is absent, and its description is the one of the parameter,
  \<^verbatim>\<open>"{name} parameter"\<close> when that is absent.
\<close>

theorem inputSchema_properties:
  assumes "build_inputSchema (Some params) = Inr s"
  shows "build_inputSchema (Some (filter has_name_and_in params)) = Inr s
    \<and> fst ` set (is_properties s) = {n. \<exists>p \<in> set params. has_name_and_in p \<and> p_name p = Some n}
    \<and> (\<forall>n pr. (n, pr) \<in> set (is_properties s) \<longrightarrow>
          (\<exists>p \<in> set params. \<exists>paramSchema. has_name_and_in p \<and> p_name p = Some n
             \<and> p_schema p = Some paramSchema \<and> pr = default_property p n paramSchema))"
proof -
  from assms have run: "add_parameters params empty_inputSchema = Inr s"
    by (simp add: build_inputSchema_def)
  have "build_inputSchema (Some (filter has_name_and_in params)) = Inr s"
    using run add_parameters_filter [of params empty_inputSchema]
    by (simp add: build_inputSchema_def)
  moreover have "fst ` set (is_properties s)
      = {n. \<exists>p \<in> set params. has_name_and_in p \<and> p_name p = Some n}"
    using add_parameters_keys [OF run] by (simp add: empty_inputSchema_def)
  moreover have "\<exists>p \<in> set params. \<exists>paramSchema. has_name_and_in p \<and> p_name p = Some n
             \<and> p_schema p = Some paramSchema \<and> pr = default_property p n paramSchema"
    if "(n, pr) \<in> set (is_properties s)" for n pr
    using add_parameters_values [OF run that] by (simp add: empty_inputSchema_def)
  ultimately show ?thesis by blast
qed

theorem inputSchema_properties_witness:
  "build_inputSchema
     (Some [\<lparr> p_name = Some ''voice_id'', p_in = Some ''path'', p_description = None,
               p_required = True, p_schema = Some \<lparr> schema_type = None \<rparr> \<rparr>,
            \<lparr> p_name = None, p_in = None, p_description = None,
               p_required = False, p_schema = None \<rparr>])
     = Inr \<lparr> is_type = ''object'',
             is_properties = [(''voice_id'', \<lparr> prop_type = ''string'',
                                               prop_description = ''voice_id parameter'' \<rparr>)],
             is_required = Some [''voice_id''] \<rparr>
   \<and> build_inputSchema
       (Some (filter has_name_and_in
          [\<lparr> p_name = Some ''voice_id'', p_in = Some ''path'', p_description = None,
              p_required = True, p_schema = Some \<lparr> schema_type = None \<rparr> \<rparr>,
           \<lparr> p_name = None, p_in = None, p_description = None,
              p_required = False, p_schema = None \<rparr>]))
     = Inr \<lparr> is_type = ''object'',
             is_properties = [(''voice_id'', \<lparr> prop_type = ''string'',
                                               prop_description = ''voice_id parameter'' \<rparr>)],
             is_required = Some [''voice_id''] \<rparr>"
proof -
  have h: "build_inputSchema
     (Some [\<lparr> p_name = Some ''voice_id'', p_in = Some ''path'', p_description = None,
               p_required = True, p_schema = Some \<lparr> schema_type = None \<rparr> \<rparr>,
            \<lparr> p_name = None, p_in = None, p_description = None,
               p_required = False, p_schema = None \<rparr>])
     = Inr \<lparr> is_type = ''object'',
             is_properties = [(''voice_id'', \<lparr> prop_type = ''string'',
                                               prop_description = ''voice_id parameter'' \<rparr>)],
             is_required = Some [''voice_id''] \<rparr>"
    by code_simp
  from h inputSchema_properties [OF h, THEN conjunct1] show ?thesis by (rule conjI)
qed


section \<open>The resolution of a request\<close>

lemma find_by_name_find:
  "find_by_name name tls =
     (case find (\<lambda>(tid, t). tool_name t = name) tls of
        None \<Rightarrow> (None, None)
      | Some (tid, t) \<Rightarrow> (Some t, Some tid))"
  by (induction tls) auto


lemma find_by_name_first:
  assumes "tool_name t = name" and "list_all (\<lambda>(k, u). tool_name u \<noteq> name) pre"
  shows "find_by_name name (pre @ (tid, t) # post) = (Some t, Some tid)"
  using assms by (induction pre) auto

text \<open>
  Claim C7 says that an identifier that is supplied is looked up directly in the registry
  and takes precedence over the name. The handler takes an identifier that is not truthy
  (\<^verbatim>\<open>0\<close> or the empty string, as well as none) for no identifier: the request is resolved
  by its name, although no entry stands under the identifier.
\<close>

theorem falsy_identifier_resolved_by_name:
  "tools_get sample_registry ''0'' = None
   \<and> resolve_tool sample_registry (JNum ''0'') ''List_models''
       = Inr (Some (models_tool ''GET''), Some ''GET-v1-models'')
   \<and> tools_get sample_registry [] = None
   \<and> resolve_tool sample_registry (JStr []) ''List_models''
       = Inr (Some (models_tool ''GET''), Some ''GET-v1-models'')"
  by code_simp

text \<open>
  Claim C7, amended. When the request supplies a truthy identifier, the name plays no part:
  a string that is a text with white space around it resolves to the entry of the registry
  under that text, a string of white space to the entry under the empty text, and any other
  value to the entry under the string it is converted to. When the identifier is not truthy
  and the name is not empty, the tool is the first entry of the registry, in its order,
  whose tool has that name; when the name is empty too, there is none.
\<close>

theorem resolution_order:
  "(list_all isWhiteSpace a \<and> list_all isWhiteSpace b \<and> plain_text s \<longrightarrow>
      resolve_tool tls (JStr (a @ s @ b)) name = Inr (map_of tls s, Some s))
   \<and> (list_all isWhiteSpace w \<and> w \<noteq> [] \<longrightarrow>
        resolve_tool tls (JStr w) name = Inr (map_of tls [], Some []))
   \<and> (truthy ident \<and> (case ident of JStr x \<Rightarrow> False | _ \<Rightarrow> True) \<and> js_String ident = Inr k \<longrightarrow>
        resolve_tool tls ident name = Inr (map_of tls k, Some k))
   \<and> (\<not> truthy ident \<and> name \<noteq> [] \<longrightarrow>
        resolve_tool tls ident name
          = Inr (case find (\<lambda>(tid, t). tool_name t = name) tls of
                   None \<Rightarrow> (None, None)
                 | Some (tid, t) \<Rightarrow> (Some t, Some tid)))
   \<and> (\<not> truthy ident \<and> name \<noteq> [] \<and> tool_name t = name
        \<and> list_all (\<lambda>(k, u). tool_name u \<noteq> name) pre \<longrightarrow>
        resolve_tool (pre @ (tid, t) # post) ident name = Inr (Some t, Some tid))
   \<and> (\<not> truthy ident \<and> name = [] \<longrightarrow> resolve_tool tls ident name = Inr (None, None))"
proof (intro conjI impI)
  assume h: "list_all isWhiteSpace a \<and> list_all isWhiteSpace b \<and> plain_text s"
  then have "trim (a @ s @ b) = s" by (simp add: trim_core)
  moreover from h have "a @ s @ b \<noteq> []" by (simp add: plain_text_def)
  ultimately show "resolve_tool tls (JStr (a @ s @ b)) name = Inr (map_of tls s, Some s)"
    by (simp add: resolve_tool_def lookup_key_def tools_get_def)
next
  assume "list_all isWhiteSpace w \<and> w \<noteq> []"
  then show "resolve_tool tls (JStr w) name = Inr (map_of tls [], Some [])"
    by (simp add: resolve_tool_def lookup_key_def tools_get_def trim_blank)
next
  assume "truthy ident \<and> (case ident of JStr x \<Rightarrow> False | _ \<Rightarrow> True) \<and> js_String ident = Inr k"
  then show "resolve_tool tls ident name = Inr (map_of tls k, Some k)"
    by (cases ident) (auto simp add: resolve_tool_def lookup_key_def tools_get_def)
next
  assume "\<not> truthy ident \<and> name \<noteq> []"
  then show "resolve_tool tls ident name
          = Inr (case find (\<lambda>(tid, t). tool_name t = name) tls of
                   None \<Rightarrow> (None, None)
                 | Some (tid, t) \<Rightarrow> (Some t, Some tid))"
    using find_by_name_find [of name tls] by (simp add: resolve_tool_def)
next
  assume "\<not> truthy ident \<and> name \<noteq> [] \<and> tool_name t = name
        \<and> list_all (\<lambda>(k, u). tool_name u \<noteq> name) pre"
  then show "resolve_tool (pre @ (tid, t) # post) ident name = Inr (Some t, Some tid)"
    by (simp add: resolve_tool_def find_by_name_first)
next
  assume "\<not> truthy ident \<and> name = []"
  then show "resolve_tool tls ident name = Inr (None, None)"
    by (simp add: resolve_tool_def)
qed

theorem resolution_order_witness:
  "list_all isWhiteSpace [CHR 0xA0, CHR 0x20] \<and> list_all isWhiteSpace [CHR 0x09]
   \<and> plain_text ''POST-v1-models''
   \<and> resolve_tool sample_registry (JStr ([CHR 0xA0, CHR 0x20] @ ''POST-v1-models'' @ [CHR 0x09])) ''List_models''
       = Inr (Some (models_tool ''POST''), Some ''POST-v1-models'')
   \<and> \<not> truthy JUndefined
   \<and> list_all (\<lambda>(k, u). tool_name u \<noteq> ''List_models'') [(''GET-v1-voices'', sample_tool)]
   \<and> resolve_tool sample_registry JUndefined ''List_models''
       = Inr (Some (models_tool ''GET''), Some ''GET-v1-models'')"
proof -
  have a: "list_all isWhiteSpace [CHR 0xA0, CHR 0x20]" by code_simp
  have b: "list_all isWhiteSpace [CHR 0x09]" by code_simp
  have s: "plain_text ''POST-v1-models''" by code_simp
  have entry: "map_of sample_registry ''POST-v1-models'' = Some (models_tool ''POST'')"
    by (simp add: sample_registry_def)
  have by_id: "resolve_tool sample_registry
        (JStr ([CHR 0xA0, CHR 0x20] @ ''POST-v1-models'' @ [CHR 0x09])) ''List_models''
       = Inr (Some (models_tool ''POST''), Some ''POST-v1-models'')"
    using resolution_order [where a = "[CHR 0xA0, CHR 0x20]" and b = "[CHR 0x09]"
        and s = "''POST-v1-models''" and tls = sample_registry and name = "''List_models''",
        THEN conjunct1] a b s entry
    by simp
  have n: "\<not> truthy JUndefined" by simp
  have pre: "list_all (\<lambda>(k, u). tool_name u \<noteq> ''List_models'') [(''GET-v1-voices'', sample_tool)]"
    by (simp add: sample_tool_def)
  have name: "tool_name (models_tool ''GET'') = ''List_models''"
    by (simp add: models_tool_def)
  have split: "sample_registry
      = [(''GET-v1-voices'', sample_tool)] @ (''GET-v1-models'', models_tool ''GET'')
          # [(''POST-v1-models'', models_tool ''POST'')]"
    by (simp add: sample_registry_def)
  have by_name: "resolve_tool sample_registry JUndefined ''List_models''
       = Inr (Some (models_tool ''GET''), Some ''GET-v1-models'')"
    unfolding split
    using resolution_order [where ident = JUndefined and name = "''List_models''"
        and t = "models_tool ''GET''" and pre = "[(''GET-v1-voices'', sample_tool)]"
        and tid = "''GET-v1-models''" and post = "[(''POST-v1-models'', models_tool ''POST'')]",
        THEN conjunct2, THEN conjunct2, THEN conjunct2, THEN conjunct2, THEN conjunct1]
      n pre name
    by simp
  from a b s by_id n pre by_name show ?thesis by (intro conjI)
qed





section \<open>Requests that resolve to no tool\<close>




text \<open>
  The handler trims every white space of JavaScript: an identifier padded with a no-break
  space resolves to its tool, and the call is issued.
\<close>

lemma no_break_space_trimmed:
  "\<not> unresolved sample_server
       \<lparr> req_id = JStr (CHR 0xA0 # ''GET-v1-voices''), req_name = [], req_arguments = None \<rparr>
   \<and> out_calls (fst (callTool concat_URL sample_axios sample_server
        \<lparr> req_id = JStr (CHR 0xA0 # ''GET-v1-voices''), req_name = [], req_arguments = None \<rparr>))
       = [\<lparr> rc_method = ''get'', rc_url = ''https://api.elevenlabs.io/v1/voices'',
             rc_headers = [(''Content-Type'', ''application/json'')],
             rc_params = None, rc_data = None \<rparr>]"
  by code_simp









section \<open>The request of a resolved tool\<close>

lemma reconstruct_path:
  "snd (reconstruct toolId)
   = ''/'' @ replace_char (CHR ''-'') (CHR ''/'') (drop 1 (dropWhile (\<lambda>c. c \<noteq> CHR ''-'') toolId))"
proof (cases "CHR ''-'' \<in> set toolId")
  case True
  then obtain rest where s: "toolId = takeWhile (\<lambda>c. c \<noteq> CHR ''-'') toolId @ CHR ''-'' # rest"
    by (rule split_at_hyphen)
  have m: "CHR ''-'' \<notin> set (takeWhile (\<lambda>c. c \<noteq> CHR ''-'') toolId)"
    by (auto dest: set_takeWhileD)
  have "dropWhile (\<lambda>c. c \<noteq> CHR ''-'') toolId = CHR ''-'' # rest"
    using s takeWhile_dropWhile_id [of "\<lambda>c. c \<noteq> CHR ''-''" toolId] by (metis same_append_eq)
  moreover have "snd (reconstruct toolId) = ''/'' @ replace_char (CHR ''-'') (CHR ''/'') rest"
    by (subst s) (simp add: reconstruct_eq [OF m])
  ultimately show ?thesis by simp
next
  case False
  then have e: "dropWhile (\<lambda>c. c \<noteq> CHR ''-'') toolId = []" by auto
  show ?thesis
    unfolding reconstruct_def str_split_whole [OF False] e
    by (simp add: replace_char_def)
qed

lemma remove_leading_slash_Cons: "remove_leading_slash (CHR ''/'' # s) = s"
  by (simp add: remove_leading_slash_def startsWith_def)

lemma ensure_trailing_slash_cases:
  "endsWith (ensure_trailing_slash b) (CHR ''/'')
   \<and> (if endsWith b (CHR ''/'') then ensure_trailing_slash b = b
       else ensure_trailing_slash b = b @ ''/'')"
  by (simp add: ensure_trailing_slash_def endsWith_def)

lemma build_request_url:
  assumes "build_request new_URL cfg toolId params = Inr rc"
  shows "new_URL (rel_path toolId) (ensure_trailing_slash (apiBaseUrl cfg)) = Some (rc_url rc)"
proof -
  obtain m path where rec: "reconstruct toolId = (m, path)" by (cases "reconstruct toolId")
  then have "path = ''/'' @ rel_path toolId"
    using reconstruct_path [of toolId] by (simp add: rel_path_def)
  then have clean: "remove_leading_slash path = rel_path toolId"
    by (simp add: remove_leading_slash_Cons)
  from assms show ?thesis
    by (auto simp add: build_request_def rec clean Let_def split: option.splits if_splits sum.splits)
qed

text \<open>
  The request that the handler hands to the HTTP client, for a request that resolves to a
  tool, is the one that \<open>build_request\<close> makes of the identifier and the arguments.
\<close>

lemma dispatched_request:
  assumes "resolve_tool (tools srv) (req_id req) (req_name req) = Inr (Some t, Some toolId)"
    and "toolId \<noteq> []"
    and "build_request new_URL (config srv) toolId (req_arguments req) = Inr rc"
  shows "out_calls (fst (callTool new_URL axios srv req)) = [rc]"
  using assms
  by (cases "axios rc") (simp_all add: callTool_def execute_tool_def Let_def)

lemma rel_path_plain:
  assumes "plain_path_part toolId"
  shows "\<not> startsWith (rel_path toolId) (CHR ''/'')"
  using assms
  by (cases "path_part toolId")
     (auto simp add: plain_path_part_def rel_path_def path_part_def startsWith_def replace_char_def)

lemma ensure_trailing_slash_once:
  assumes "\<not> ends_with_several_slashes b"
  shows "exactly_one_trailing_slash (ensure_trailing_slash b)"
  using assms
  by (auto simp add: ends_with_several_slashes_def exactly_one_trailing_slash_def
      ensure_trailing_slash_def endsWith_def)

text \<open>
  Claim C8 says that every base URL is forced to end with exactly one slash, so that the
  request URL never has a doubled slash where base and path meet. The handler adds a slash
  to a base URL that ends with none and leaves every other as it is: a base URL that ends
  with two slashes keeps both.
\<close>

theorem base_url_keeps_two_slashes:
  "ensure_trailing_slash ''https://api.elevenlabs.io//'' = ''https://api.elevenlabs.io//''
   \<and> \<not> exactly_one_trailing_slash (ensure_trailing_slash ''https://api.elevenlabs.io//'')"
  by code_simp

text \<open>
  Claim C8, amended. The base that the handler resolves against is the configured base
  URL, with a slash added when it ends with none and as it is when it ends with one; so it
  ends with exactly one slash unless the configured base URL ends with several. For an
  identifier whose path part, what follows its first hyphen, begins with neither a hyphen
  nor a slash, the request URL is what the runtime's URL resolution makes of that base and
  of the reconstructed path without its leading slash, which then begins with no slash: at
  the join there is one slash, neither doubled nor missing, and where the resolution joins
  the two, the request URL is the base without its last slash, a slash and that path.
\<close>

theorem request_url:
  assumes "build_request new_URL cfg toolId params = Inr rc"
  shows "ensure_trailing_slash (apiBaseUrl cfg)
           = (if endsWith (apiBaseUrl cfg) (CHR ''/'') then apiBaseUrl cfg else apiBaseUrl cfg @ ''/'')
         \<and> (\<not> ends_with_several_slashes (apiBaseUrl cfg) \<longrightarrow>
              exactly_one_trailing_slash (ensure_trailing_slash (apiBaseUrl cfg)))
         \<and> (plain_path_part toolId \<longrightarrow>
              new_URL (rel_path toolId) (ensure_trailing_slash (apiBaseUrl cfg)) = Some (rc_url rc)
              \<and> snd (reconstruct toolId) = ''/'' @ rel_path toolId
              \<and> \<not> startsWith (rel_path toolId) (CHR ''/''))
         \<and> (\<not> ends_with_several_slashes (apiBaseUrl cfg) \<and> plain_path_part toolId
              \<and> new_URL (rel_path toolId) (ensure_trailing_slash (apiBaseUrl cfg))
                  = Some (ensure_trailing_slash (apiBaseUrl cfg) @ rel_path toolId) \<longrightarrow>
              rc_url rc = butlast (ensure_trailing_slash (apiBaseUrl cfg)) @ ''/'' @ rel_path toolId
              \<and> \<not> endsWith (butlast (ensure_trailing_slash (apiBaseUrl cfg))) (CHR ''/''))"
proof (intro conjI impI)
  show "ensure_trailing_slash (apiBaseUrl cfg)
           = (if endsWith (apiBaseUrl cfg) (CHR ''/'') then apiBaseUrl cfg else apiBaseUrl cfg @ ''/'')"
    by (simp add: ensure_trailing_slash_def)
next
  assume "\<not> ends_with_several_slashes (apiBaseUrl cfg)"
  then show "exactly_one_trailing_slash (ensure_trailing_slash (apiBaseUrl cfg))"
    by (rule ensure_trailing_slash_once)
next
  show "new_URL (rel_path toolId) (ensure_trailing_slash (apiBaseUrl cfg)) = Some (rc_url rc)"
    by (rule build_request_url [OF assms])
next
  show "snd (reconstruct toolId) = ''/'' @ rel_path toolId"
    using reconstruct_path [of toolId] by (simp add: rel_path_def)
next
  assume "plain_path_part toolId"
  then show "\<not> startsWith (rel_path toolId) (CHR ''/'')"
    by (rule rel_path_plain)
next
  assume h: "\<not> ends_with_several_slashes (apiBaseUrl cfg) \<and> plain_path_part toolId
              \<and> new_URL (rel_path toolId) (ensure_trailing_slash (apiBaseUrl cfg))
                  = Some (ensure_trailing_slash (apiBaseUrl cfg) @ rel_path toolId)"
  let ?base = "ensure_trailing_slash (apiBaseUrl cfg)"
  from h have once: "exactly_one_trailing_slash ?base"
    by (simp add: ensure_trailing_slash_once)
  then have "?base = butlast ?base @ ''/''"
    by (simp add: exactly_one_trailing_slash_def endsWith_def) (metis append_butlast_last_id)
  moreover from h build_request_url [OF assms] have "rc_url rc = ?base @ rel_path toolId"
    by simp
  ultimately show "rc_url rc = butlast ?base @ ''/'' @ rel_path toolId"
    by (metis append_assoc)
  from once show "\<not> endsWith (butlast ?base) (CHR ''/'')"
    by (simp add: exactly_one_trailing_slash_def)
qed

theorem request_url_witness:
  "build_request concat_URL (config sample_server) (derive_toolId ''get'' ''/v1/voices'') None
     = Inr \<lparr> rc_method = ''get'', rc_url = ''https://api.elevenlabs.io/v1/voices'',
             rc_headers = [(''Content-Type'', ''application/json'')],
             rc_params = None, rc_data = None \<rparr>
   \<and> \<not> ends_with_several_slashes (apiBaseUrl (config sample_server))
   \<and> plain_path_part (derive_toolId ''get'' ''/v1/voices'')
   \<and> exactly_one_trailing_slash (ensure_trailing_slash (apiBaseUrl (config sample_server)))
   \<and> \<not> startsWith (rel_path (derive_toolId ''get'' ''/v1/voices'')) (CHR ''/'')
   \<and> ''https://api.elevenlabs.io/v1/voices''
       = butlast (ensure_trailing_slash (apiBaseUrl (config sample_server))) @ ''/''
         @ rel_path (derive_toolId ''get'' ''/v1/voices'')"
proof -
  let ?rc = "\<lparr> rc_method = ''get'', rc_url = ''https://api.elevenlabs.io/v1/voices'',
             rc_headers = [(''Content-Type'', ''application/json'')],
             rc_params = None, rc_data = None \<rparr>"
  let ?id = "derive_toolId ''get'' ''/v1/voices''"
  let ?cfg = "config sample_server"
  have h: "build_request concat_URL ?cfg ?id None = Inr ?rc"
    by code_simp
  have base: "\<not> ends_with_several_slashes (apiBaseUrl ?cfg)" by code_simp
  have plain: "plain_path_part ?id" by code_simp
  have joins: "concat_URL (rel_path ?id) (ensure_trailing_slash (apiBaseUrl ?cfg))
      = Some (ensure_trailing_slash (apiBaseUrl ?cfg) @ rel_path ?id)"
    by (simp add: concat_URL_def)
  note t = request_url [OF h]
  from t [THEN conjunct2, THEN conjunct1] base
  have once: "exactly_one_trailing_slash (ensure_trailing_slash (apiBaseUrl ?cfg))" by blast
  from t [THEN conjunct2, THEN conjunct2, THEN conjunct1] plain
  have rel: "\<not> startsWith (rel_path ?id) (CHR ''/'')" by blast
  from t [THEN conjunct2, THEN conjunct2, THEN conjunct2] base plain joins
  have "rc_url ?rc = butlast (ensure_trailing_slash (apiBaseUrl ?cfg)) @ ''/'' @ rel_path ?id"
    by blast
  then have url: "''https://api.elevenlabs.io/v1/voices''
       = butlast (ensure_trailing_slash (apiBaseUrl ?cfg)) @ ''/'' @ rel_path ?id"
    by simp
  from h base plain once rel url show ?thesis by (intro conjI)
qed


section \<open>The shaping of the arguments\<close>

lemma query_params_step:
  "query_params ((key, v) # rest) q =
     (case query_value v of
        None \<Rightarrow> query_params rest q
      | Some (Inl e) \<Rightarrow> Inl e
      | Some (Inr s) \<Rightarrow> query_params rest (entries_set key s q))"
  by (cases v) (simp_all add: query_value_def split: sum.splits)

lemma query_params_lookup:
  "query_params kvs q = Inr r \<Longrightarrow> distinct (map fst kvs) \<Longrightarrow>
     map_of r k =
       (case map_of kvs k of
          None \<Rightarrow> map_of q k
        | Some v \<Rightarrow> (case query_value v of
                       None \<Rightarrow> map_of q k
                     | Some res \<Rightarrow> (case res of Inl e \<Rightarrow> None | Inr s \<Rightarrow> Some s)))"
proof (induction kvs arbitrary: q)
  case Nil
  then show ?case by simp
next
  case (Cons entry kvs)
  obtain key v where entry: "entry = (key, v)" by (cases entry)
  from Cons.prems(2) entry have dist: "distinct (map fst kvs)" and fresh: "key \<notin> fst ` set kvs"
    by simp_all
  from fresh have none: "map_of kvs key = None"
    by (simp add: map_of_eq_None_iff)
  show ?case
  proof (cases "query_value v")
    case None
    with Cons.prems(1) entry have run: "query_params kvs q = Inr r"
      by (simp only: query_params_step) simp
    from Cons.IH [OF run dist] None entry none show ?thesis
      by (cases "k = key") simp_all
  next
    case (Some res)
    with Cons.prems(1) entry obtain s where res: "res = Inr s"
      and run: "query_params kvs (entries_set key s q) = Inr r"
      by (cases res) (simp_all only: query_params_step, simp_all)
    from Cons.IH [OF run dist] Some res entry none show ?thesis
      by (cases "k = key") (simp_all add: entries_set_map_of split: option.splits)
  qed
qed

lemma query_params_keys:
  "query_params kvs q = Inr r \<Longrightarrow> fst ` set r \<subseteq> fst ` set q \<union> fst ` set kvs"
proof (induction kvs arbitrary: q)
  case Nil
  then show ?case by simp
next
  case (Cons entry kvs)
  obtain key v where entry: "entry = (key, v)" by (cases entry)
  show ?case
  proof (cases "query_value v")
    case None
    with Cons.prems entry have run: "query_params kvs q = Inr r"
      by (simp only: query_params_step) simp
    from Cons.IH [OF run] entry show ?thesis by auto
  next
    case (Some res)
    with Cons.prems(1) entry obtain s where res: "res = Inr s"
      and run: "query_params kvs (entries_set key s q) = Inr r"
      by (cases res) (simp_all only: query_params_step, simp_all)
    from Cons.IH [OF run] entry show ?thesis
      by (auto simp add: entries_set_keys)
  qed
qed

lemma query_params_no_error:
  "query_params kvs q = Inr r \<Longrightarrow> (k, v) \<in> set kvs \<Longrightarrow> query_value v \<noteq> Some (Inl e)"
proof (induction kvs arbitrary: q)
  case Nil
  then show ?case by simp
next
  case (Cons entry kvs)
  obtain key w where entry: "entry = (key, w)" by (cases entry)
  show ?case
  proof (cases "query_value w")
    case None
    with Cons.prems(1) entry have run: "query_params kvs q = Inr r"
      by (simp only: query_params_step) simp
    from Cons.IH [OF run] Cons.prems(2) entry None show ?thesis by auto
  next
    case (Some res)
    with Cons.prems(1) entry obtain s where res: "res = Inr s"
      and run: "query_params kvs (entries_set key s q) = Inr r"
      by (cases res) (simp_all only: query_params_step, simp_all)
    from Cons.IH [OF run] Cons.prems(2) entry Some res show ?thesis by auto
  qed
qed

lemma js_elements_strings: "js_elements (map JStr ss) = Inr ss"
  by (induction ss) simp_all

lemma array_join_strings: "array_join (map JStr ss) = Inr (str_join '','' ss)"
  by (simp add: array_join_def js_elements_strings)

lemma build_request_get:
  assumes "toLowerCase (fst (reconstruct toolId)) = ''get''"
    and "build_request new_URL cfg toolId (Some args) = Inr rc"
  shows "rc_data rc = None \<and> (\<exists>q. rc_params rc = Some q \<and> query_params args [] = Inr q)"
proof -
  obtain m path where rec: "reconstruct toolId = (m, path)" by (cases "reconstruct toolId")
  with assms show ?thesis
    by (auto simp add: build_request_def Let_def split: option.splits sum.splits)
qed

lemma build_request_other:
  assumes "toLowerCase (fst (reconstruct toolId)) \<noteq> ''get''"
    and "build_request new_URL cfg toolId params = Inr rc"
  shows "rc_data rc = params \<and> rc_params rc = None"
proof -
  obtain m path where rec: "reconstruct toolId = (m, path)" by (cases "reconstruct toolId")
  with assms show ?thesis
    by (auto simp add: build_request_def Let_def split: option.splits sum.splits)
qed

lemma shaping_get:
  assumes m: "toLowerCase (fst (reconstruct toolId)) = ''get''"
    and b: "build_request new_URL cfg toolId (Some args) = Inr rc"
    and d: "distinct (map fst args)"
  shows "rc_data rc = None
      \<and> (\<exists>q. rc_params rc = Some q
            \<and> fst ` set q \<subseteq> fst ` set args
            \<and> (\<forall>k v. (k, v) \<in> set args \<longrightarrow>
                  (case v of
                     JArr xs \<Rightarrow> \<exists>s. array_join xs = Inr s \<and> map_of q k = Some s
                   | JUndefined \<Rightarrow> map_of q k = None
                   | JNull \<Rightarrow> map_of q k = None
                   | _ \<Rightarrow> \<exists>s. js_String v = Inr s \<and> map_of q k = Some s)))"
proof -
  from build_request_get [OF m b] obtain q where
    data: "rc_data rc = None" and q: "rc_params rc = Some q" and run: "query_params args [] = Inr q"
    by blast
  have keys: "fst ` set q \<subseteq> fst ` set args"
    using query_params_keys [OF run] by simp
  have each: "case v of
                   JArr xs \<Rightarrow> \<exists>s. array_join xs = Inr s \<and> map_of q k = Some s
                 | JUndefined \<Rightarrow> map_of q k = None
                 | JNull \<Rightarrow> map_of q k = None
                 | _ \<Rightarrow> \<exists>s. js_String v = Inr s \<and> map_of q k = Some s"
    if "(k, v) \<in> set args" for k v
  proof -
    from that d have look: "map_of args k = Some v" by simp
    have val: "map_of q k = (case query_value v of
                     None \<Rightarrow> None
                   | Some res \<Rightarrow> (case res of Inl e \<Rightarrow> None | Inr s \<Rightarrow> Some s))"
      using query_params_lookup [OF run d, of k] look by (simp split: option.splits)
    have ok: "query_value v \<noteq> Some (Inl e)" for e
      using query_params_no_error [OF run that] .
    show ?thesis
    proof (cases "query_value v")
      case None
      with val show ?thesis
        by (cases v) (simp_all add: query_value_def)
    next
      case (Some res)
      with ok obtain s where res: "res = Inr s" by (cases res) auto
      with Some val have "map_of q k = Some s" by simp
      with Some res show ?thesis
        by (cases v) (simp_all add: query_value_def)
    qed
  qed
  show ?thesis
  proof (intro conjI exI)
    show "rc_data rc = None" by (rule data)
    show "rc_params rc = Some q" by (rule q)
    show "fst ` set q \<subseteq> fst ` set args" by (rule keys)
    show "\<forall>k v. (k, v) \<in> set args \<longrightarrow>
                  (case v of
                     JArr xs \<Rightarrow> \<exists>s. array_join xs = Inr s \<and> map_of q k = Some s
                   | JUndefined \<Rightarrow> map_of q k = None
                   | JNull \<Rightarrow> map_of q k = None
                   | _ \<Rightarrow> \<exists>s. js_String v = Inr s \<and> map_of q k = Some s)"
      using each by (intro allI impI)
  qed
qed

text \<open>
  Claim C2. When the method of the resolved identifier is GET, the request has no body and
  its query parameters come from the arguments (an object, whose keys are distinct): an
  array gives its elements joined with commas, \<^verbatim>\<open>undefined\<close> and \<^verbatim>\<open>null\<close> give no
  parameter, and every other value gives its text. With any other method the arguments are
  the body of the request as they stand, and there are no query parameters. The request is
  made of the identifier and the arguments alone: the tool's input contract takes no part.
\<close>

theorem argument_shaping:
  "(toLowerCase (fst (reconstruct toolId)) = ''get''
      \<and> build_request new_URL cfg toolId (Some args) = Inr rc \<and> distinct (map fst args) \<longrightarrow>
      rc_data rc = None
      \<and> (\<exists>q. rc_params rc = Some q
            \<and> fst ` set q \<subseteq> fst ` set args
            \<and> (\<forall>k v. (k, v) \<in> set args \<longrightarrow>
                  (case v of
                     JArr xs \<Rightarrow> \<exists>s. array_join xs = Inr s \<and> map_of q k = Some s
                   | JUndefined \<Rightarrow> map_of q k = None
                   | JNull \<Rightarrow> map_of q k = None
                   | _ \<Rightarrow> \<exists>s. js_String v = Inr s \<and> map_of q k = Some s))))
   \<and> array_join (map JStr ss) = Inr (str_join '','' ss)
   \<and> (toLowerCase (fst (reconstruct toolId)) \<noteq> ''get''
        \<and> build_request new_URL cfg toolId params = Inr rc' \<longrightarrow>
        rc_data rc' = params \<and> rc_params rc' = None)"
proof (intro conjI)
  show "toLowerCase (fst (reconstruct toolId)) = ''get''
      \<and> build_request new_URL cfg toolId (Some args) = Inr rc \<and> distinct (map fst args) \<longrightarrow>
      rc_data rc = None
      \<and> (\<exists>q. rc_params rc = Some q
            \<and> fst ` set q \<subseteq> fst ` set args
            \<and> (\<forall>k v. (k, v) \<in> set args \<longrightarrow>
                  (case v of
                     JArr xs \<Rightarrow> \<exists>s. array_join xs = Inr s \<and> map_of q k = Some s
                   | JUndefined \<Rightarrow> map_of q k = None
                   | JNull \<Rightarrow> map_of q k = None
                   | _ \<Rightarrow> \<exists>s. js_String v = Inr s \<and> map_of q k = Some s)))"
    by (intro impI, elim conjE, rule shaping_get)
  show "array_join (map JStr ss) = Inr (str_join '','' ss)"
    by (rule array_join_strings)
  show "toLowerCase (fst (reconstruct toolId)) \<noteq> ''get''
        \<and> build_request new_URL cfg toolId params = Inr rc' \<longrightarrow>
        rc_data rc' = params \<and> rc_params rc' = None"
    by (intro impI, elim conjE, rule build_request_other)
qed

theorem argument_shaping_witness:
  "toLowerCase (fst (reconstruct ''GET-v1-voices'')) = ''get''
   \<and> build_request concat_URL (config sample_server) ''GET-v1-voices''
        (Some [(''tags'', JArr [JStr ''a'', JStr ''b'']), (''limit'', JNum ''10''), (''cursor'', JNull)])
       = Inr \<lparr> rc_method = ''get'', rc_url = ''https://api.elevenlabs.io/v1/voices'',
               rc_headers = [(''Content-Type'', ''application/json'')],
               rc_params = Some [(''tags'', ''a,b''), (''limit'', ''10'')], rc_data = None \<rparr>
   \<and> distinct (map fst [(''tags'', JArr [JStr ''a'', JStr ''b'']), (''limit'', JNum ''10''), (''cursor'', JNull)])
   \<and> (\<exists>q. Some [(''tags'', ''a,b''), (''limit'', ''10'')] = Some q
         \<and> (\<exists>s. array_join [JStr ''a'', JStr ''b''] = Inr s \<and> map_of q ''tags'' = Some s)
         \<and> (\<exists>s. js_String (JNum ''10'') = Inr s \<and> map_of q ''limit'' = Some s)
         \<and> map_of q ''cursor'' = None)
   \<and> toLowerCase (fst (reconstruct ''POST-v1-voices'')) \<noteq> ''get''
   \<and> build_request concat_URL (config sample_server) ''POST-v1-voices'' (Some [(''name'', JStr ''x'')])
       = Inr \<lparr> rc_method = ''post'', rc_url = ''https://api.elevenlabs.io/v1/voices'',
               rc_headers = [(''Content-Type'', ''application/json'')],
               rc_params = None, rc_data = Some [(''name'', JStr ''x'')] \<rparr>"
proof -
  let ?args = "[(''tags'', JArr [JStr ''a'', JStr ''b'']), (''limit'', JNum ''10''), (''cursor'', JNull)]"
  let ?rc = "\<lparr> rc_method = ''get'', rc_url = ''https://api.elevenlabs.io/v1/voices'',
               rc_headers = [(''Content-Type'', ''application/json'')],
               rc_params = Some [(''tags'', ''a,b''), (''limit'', ''10'')], rc_data = None \<rparr>"
  let ?rc' = "\<lparr> rc_method = ''post'', rc_url = ''https://api.elevenlabs.io/v1/voices'',
               rc_headers = [(''Content-Type'', ''application/json'')],
               rc_params = None, rc_data = Some [(''name'', JStr ''x'')] \<rparr>"
  have m: "toLowerCase (fst (reconstruct ''GET-v1-voices'')) = ''get''" by code_simp
  have b: "build_request concat_URL (config sample_server) ''GET-v1-voices'' (Some ?args) = Inr ?rc"
    by code_simp
  have d: "distinct (map fst ?args)" by simp
  have m': "toLowerCase (fst (reconstruct ''POST-v1-voices'')) \<noteq> ''get''" by code_simp
  have b': "build_request concat_URL (config sample_server) ''POST-v1-voices'' (Some [(''name'', JStr ''x'')])
              = Inr ?rc'"
    by code_simp
  note shaping = argument_shaping [of "''GET-v1-voices''" concat_URL "config sample_server" ?args ?rc]
  from shaping [THEN conjunct1] m b d obtain q where
    q: "rc_params ?rc = Some q"
    and each: "\<forall>k v. (k, v) \<in> set ?args \<longrightarrow>
                  (case v of
                     JArr xs \<Rightarrow> \<exists>s. array_join xs = Inr s \<and> map_of q k = Some s
                   | JUndefined \<Rightarrow> map_of q k = None
                   | JNull \<Rightarrow> map_of q k = None
                   | _ \<Rightarrow> \<exists>s. js_String v = Inr s \<and> map_of q k = Some s)"
    by blast
  from each have "\<exists>s. array_join [JStr ''a'', JStr ''b''] = Inr s \<and> map_of q ''tags'' = Some s"
    by force
  moreover from each have "\<exists>s. js_String (JNum ''10'') = Inr s \<and> map_of q ''limit'' = Some s"
    by force
  moreover from each have "map_of q ''cursor'' = None"
    by force
  ultimately have get: "\<exists>q. Some [(''tags'', ''a,b''), (''limit'', ''10'')] = Some q
         \<and> (\<exists>s. array_join [JStr ''a'', JStr ''b''] = Inr s \<and> map_of q ''tags'' = Some s)
         \<and> (\<exists>s. js_String (JNum ''10'') = Inr s \<and> map_of q ''limit'' = Some s)
         \<and> map_of q ''cursor'' = None"
    using q by auto
  from m b d get m' b' show ?thesis by (intro conjI)
qed

end
